theory Spec2Isabelle
  imports Main
begin

section \<open>The agentic tool-call loop of gemini.mjs\<close>

text \<open>
  A shallow embedding of the function \<open>run\<close> of \<^verbatim>\<open>src/gemini.mjs\<close> (lines 126 to 223):
  the loop that sends a prompt to the model, asks the operator about every function call
  the model requests, executes the approved ones and sends the batch of results back.

  Strings are lists of 8-bit characters: the model covers the JavaScript strings whose
  UTF-16 code units are all below 256 (Latin-1), where \<open>length\<close> is \<open>.length\<close> and
  \<open>take n\<close> is \<open>.substring(0, n)\<close>.

  Everything the program reaches outside itself (the chat session of the SDK, the
  readline prompt, \<open>child_process\<close>, \<open>fs\<close>, \<open>path\<close>, \<open>JSON.stringify\<close>) is a field of
  an environment record over a world state \<open>'w\<close>; a call that throws returns the
  message of the exception (\<open>err.message\<close>) instead of a value. Every call that
  reaches the transport, the console, the operator, a subprocess or the file system is
  recorded in a trace, in the order the program makes them.

  What the model takes from the platform: the promise of \<open>askPermission\<close> resolves with
  a line; \<open>console.log\<close> and \<open>chalk\<close> do not throw, and the colours of \<open>chalk\<close> are left
  out of the logged text.
\<close>

subsection \<open>Strings\<close>

text \<open>
  \<open>String.prototype.toLowerCase\<close> on code units below 256: the letters A to Z and the
  Latin-1 capitals U+00C0 to U+00DE (U+00D7, the multiplication sign, apart) move up by
  32; every other code unit stays.
\<close>

definition lowerChar :: "char \<Rightarrow> char" where
  "lowerChar c =
     (let n = (of_char c :: nat) in
      if (65 \<le> n \<and> n \<le> 90) \<or> (192 \<le> n \<and> n \<le> 222 \<and> n \<noteq> 215)
      then char_of (n + 32) else c)"

definition toLowerCase :: "string \<Rightarrow> string" where
  "toLowerCase s = map lowerChar s"

subsection \<open>Data\<close>

text \<open>
  \<open>call.args\<close> is an object with string-valued properties (the three declared tools
  take parameters of type STRING only), or it is absent: \<open>None\<close> is the value
  \<open>undefined\<close>. A property of an object, as \<open>call.args.command\<close>, is \<open>map_of\<close>, again
  with \<open>None\<close> for \<open>undefined\<close>.
\<close>

type_synonym args = "(string \<times> string) list"

datatype functionCall = FunctionCall (name: string) (args: "args option")

text \<open>A part of the model's content carries either text or a function call.\<close>

datatype part = TextPart string | FunctionCallPart functionCall

text \<open>The \<open>response\<close> object of a function response: \<open>{content: output}\<close> or \<open>{error: errorMsg}\<close>.\<close>

datatype response = Content string | Error string

datatype functionResponse = FunctionResponse (responseName: string) (response: response)

text \<open>What \<open>chat.sendMessage\<close> is given: the user's prompt, or the array of function responses.\<close>

datatype message = Prompt string | FunctionResponses "functionResponse list"

text \<open>
  What the program reads of a resolved \<open>result\<close>:
  \<open>result.response.candidates[0].content.parts\<close> (a TypeError with its message when a
  link of that chain is missing) and \<open>result.response.text()\<close> (which the SDK lets
  throw, for a blocked response).
\<close>

datatype modelResponse =
  ModelResponse (parts: "string + part list") (responseText: "string + string")

datatype event =
    Sent message "string + modelResponse"
  | ConsoleLog string
  | ConsoleError string
  | Question string string
  | ExecSync "string option"
  | MkdirSync string
  | WriteFileSync string "string option"
  | ReadFileSync string
  | RlClose

record 'w env =
  sendMessage :: "message \<Rightarrow> 'w \<Rightarrow> (string + modelResponse) \<times> 'w"
  askPermission :: "string \<Rightarrow> 'w \<Rightarrow> string \<times> 'w"
  JSON_stringify :: "args \<Rightarrow> string"
  execSync :: "string option \<Rightarrow> 'w \<Rightarrow> (string + string) \<times> 'w"
  path_resolve :: "string option \<Rightarrow> string + string"
  path_dirname :: "string \<Rightarrow> string"
  mkdirSync :: "string \<Rightarrow> 'w \<Rightarrow> string option \<times> 'w"
  writeFileSync :: "string \<Rightarrow> string option \<Rightarrow> 'w \<Rightarrow> string option \<times> 'w"
  readFileSync :: "string \<Rightarrow> 'w \<Rightarrow> (string + string) \<times> 'w"

text \<open>
  The places of the outer \<open>try\<close> block (lines 150 to 217) where an exception can start
  that only the outer \<open>catch\<close> receives: an awaited \<open>sendMessage\<close> that rejects (lines
  151 and 213), the parts of the reply (line 154), the serialized arguments of a call
  (line 163), the text of the reply (line 216).
\<close>

datatype thrownAt = AtSendMessage | AtParts | AtArgs | AtText

text \<open>
  The outcome of \<open>run\<close>: the final text it prints, or the fatal error it reports, with
  the place where the error was thrown and its message.
\<close>

datatype outcome = Printed string | FatalError thrownAt string

text \<open>The message of the TypeError for a property read on \<open>undefined\<close>.\<close>

definition cannotRead :: "string \<Rightarrow> string" where
  "cannotRead p =
     ''Cannot read properties of undefined (reading '' @ [CHR 0x27] @ p @ [CHR 0x27] @ '')''"

subsection \<open>The approval prompt\<close>

text \<open>
  Lines 163 to 165: the arguments as they are shown to the operator. For an absent
  \<open>call.args\<close>, \<open>JSON.stringify\<close> returns \<open>undefined\<close> and reading its \<open>length\<close> throws;
  the statement is outside the inner \<open>try\<close>.
\<close>

definition safeArgsLog :: "'w env \<Rightarrow> args option \<Rightarrow> string + string" where
  "safeArgsLog env a =
     (case a of
        None \<Rightarrow> Inl (cannotRead ''length'')
      | Some v \<Rightarrow>
          Inr (if length (JSON_stringify env v) > 150
               then take 150 (JSON_stringify env v) @ ''...}''
               else JSON_stringify env v))"

text \<open>Line 167, with the value of \<open>safeArgsLog\<close>.\<close>

definition requestLine :: "functionCall \<Rightarrow> string \<Rightarrow> string" where
  "requestLine call shown = ''\<newline>[AI Action Request]: '' @ name call @ '' -> '' @ shown"

definition query :: string where
  "query = ''Allow this action? (y/n/skip): ''"

text \<open>
  The three branches of lines 174, 194 and 196, named as the specification names them.
\<close>

datatype decision = Approve | Skip | Deny

definition decide :: "string \<Rightarrow> decision" where
  "decide answer =
     (if toLowerCase answer = ''y'' then Approve
      else if toLowerCase answer = ''skip'' then Skip
      else Deny)"

subsection \<open>Executing an approved call\<close>

text \<open>Lines 179 to 181.\<close>

definition truncationMarker :: string where
  "truncationMarker = ''\<newline>...[OUTPUT TRUNCATED]...''"

definition truncateOutput :: "string \<Rightarrow> string" where
  "truncateOutput output =
     (if length output > 2000 then take 2000 output @ truncationMarker else output)"

text \<open>A template literal renders \<open>undefined\<close> as the word.\<close>

definition interpolate :: "string option \<Rightarrow> string" where
  "interpolate v = (case v of None \<Rightarrow> ''undefined'' | Some s \<Rightarrow> s)"

text \<open>
  The body of the inner \<open>try\<close> (lines 176 to 190): \<open>Inr output\<close> when it completes,
  \<open>Inl err.message\<close> when a call in it throws. A name that is none of the three leaves
  \<open>output\<close> at its initial value, the empty string. Each branch starts by reading a
  property of \<open>call.args\<close>, which throws when \<open>call.args\<close> is absent.
\<close>

definition executeAction ::
  "'w env \<Rightarrow> functionCall \<Rightarrow> 'w \<times> event list \<Rightarrow> (string + string) \<times> 'w \<times> event list" where
  "executeAction env call s =
     (case s of (w, tr) \<Rightarrow>
        if name call = ''run_shell_command'' then
          (case args call of
             None \<Rightarrow> (Inl (cannotRead ''command''), w, tr)
           | Some a \<Rightarrow>
               (case execSync env (map_of a ''command'') w of (r, w') \<Rightarrow>
                  (case r of
                     Inl m \<Rightarrow> (Inl m, w', tr @ [ExecSync (map_of a ''command'')])
                   | Inr output \<Rightarrow>
                       (Inr (truncateOutput output), w', tr @ [ExecSync (map_of a ''command'')]))))
        else if name call = ''write_file'' then
          (case args call of
             None \<Rightarrow> (Inl (cannotRead ''path''), w, tr)
           | Some a \<Rightarrow>
               (case path_resolve env (map_of a ''path'') of
                  Inl m \<Rightarrow> (Inl m, w, tr)
                | Inr fullPath \<Rightarrow>
                    (case mkdirSync env (path_dirname env fullPath) w of (r1, w1) \<Rightarrow>
                       (case r1 of
                          Some m \<Rightarrow> (Inl m, w1, tr @ [MkdirSync (path_dirname env fullPath)])
                        | None \<Rightarrow>
                            (case writeFileSync env fullPath (map_of a ''content'') w1 of
                               (r2, w2) \<Rightarrow>
                                 (case r2 of
                                    Some m \<Rightarrow> Inl m
                                  | None \<Rightarrow> Inr (''Successfully wrote file: '' @
                                                 interpolate (map_of a ''path'')),
                                  w2,
                                  tr @ [MkdirSync (path_dirname env fullPath),
                                        WriteFileSync fullPath (map_of a ''content'')]))))))
        else if name call = ''read_file'' then
          (case args call of
             None \<Rightarrow> (Inl (cannotRead ''path''), w, tr)
           | Some a \<Rightarrow>
               (case path_resolve env (map_of a ''path'') of
                  Inl m \<Rightarrow> (Inl m, w, tr)
                | Inr fullPath \<Rightarrow>
                    (case readFileSync env fullPath w of (r, w') \<Rightarrow>
                       (r, w', tr @ [ReadFileSync fullPath]))))
        else (Inr '''', w, tr))"

subsection \<open>One function call of a batch\<close>

text \<open>
  Lines 201 to 209: \<open>if (errorMsg)\<close> tests truthiness, so \<open>null\<close> and the empty string
  both take the \<open>else\<close> branch.
\<close>

definition pushResponse :: "functionCall \<Rightarrow> string \<Rightarrow> string option \<Rightarrow> functionResponse" where
  "pushResponse call output errorMsg =
     (case errorMsg of
        None \<Rightarrow> FunctionResponse (name call) (Content output)
      | Some m \<Rightarrow>
          if m \<noteq> [] then FunctionResponse (name call) (Error m)
          else FunctionResponse (name call) (Content output))"

text \<open>
  The body of the \<open>for\<close> loop, lines 162 to 209: \<open>Inr\<close> the response it pushes, or
  \<open>Inl\<close> the message of the exception of line 163, thrown before anything is logged or
  asked.
\<close>

definition processCall ::
  "'w env \<Rightarrow> functionCall \<Rightarrow> 'w \<times> event list \<Rightarrow>
     (string + functionResponse) \<times> 'w \<times> event list" where
  "processCall env call s =
     (case s of (w, tr) \<Rightarrow>
        (case safeArgsLog env (args call) of
           Inl e \<Rightarrow> (Inl e, w, tr)
         | Inr shown \<Rightarrow>
             (case askPermission env query w of (answer, w1) \<Rightarrow>
                (let tr1 = tr @ [ConsoleLog (requestLine call shown), Question query answer] in
                 (case decide answer of
                    Approve \<Rightarrow>
                      (case executeAction env call (w1, tr1) of
                         (Inr output, s2) \<Rightarrow> (Inr (pushResponse call output None), s2)
                       | (Inl m, s2) \<Rightarrow> (Inr (pushResponse call '''' (Some m)), s2))
                  | Skip \<Rightarrow>
                      (Inr (pushResponse call ''''
                              (Some ''User explicitly skipped this action.'')), w1, tr1)
                  | Deny \<Rightarrow>
                      (Inr (pushResponse call ''''
                              (Some ''User denied permission.'')), w1, tr1))))))"

subsection \<open>A batch, and the loop\<close>

text \<open>Line 156: \<open>parts.filter(p => p.functionCall).map(p => p.functionCall)\<close>.\<close>

fun isFunctionCall :: "part \<Rightarrow> bool" where
  "isFunctionCall (FunctionCallPart c) = True"
| "isFunctionCall (TextPart t) = False"

fun functionCalls :: "part list \<Rightarrow> functionCall list" where
  "functionCalls [] = []"
| "functionCalls (FunctionCallPart c # ps) = c # functionCalls ps"
| "functionCalls (TextPart t # ps) = functionCalls ps"

text \<open>
  The \<open>for\<close> loop of lines 161 to 210: the responses are pushed in the order of the
  calls; an exception leaves the loop at once, with the calls before it processed.
\<close>

fun processCalls ::
  "'w env \<Rightarrow> functionCall list \<Rightarrow> 'w \<times> event list \<Rightarrow>
     (string + functionResponse list) \<times> 'w \<times> event list" where
  "processCalls env [] s = (Inr [], s)"
| "processCalls env (call # calls) s =
     (case processCall env call s of
        (Inl e, s1) \<Rightarrow> (Inl e, s1)
      | (Inr r, s1) \<Rightarrow>
          (case processCalls env calls s1 of
             (Inl e, s2) \<Rightarrow> (Inl e, s2)
           | (Inr rs, s2) \<Rightarrow> (Inr (r # rs), s2)))"

definition chat_sendMessage ::
  "'w env \<Rightarrow> message \<Rightarrow> 'w \<times> event list \<Rightarrow> (string + modelResponse) \<times> 'w \<times> event list" where
  "chat_sendMessage env msg s =
     (case s of (w, tr) \<Rightarrow>
        (case sendMessage env msg w of (res, w') \<Rightarrow> (res, w', tr @ [Sent msg res])))"

text \<open>
  The body of the \<open>while\<close> loop, lines 155 to 213: \<open>Inr\<close> the settled \<open>sendMessage\<close> of
  the batch, or \<open>Inl\<close> the message of the exception that left the \<open>for\<close> loop, in which
  case nothing is sent.
\<close>

definition loopBody ::
  "'w env \<Rightarrow> part list \<Rightarrow> 'w \<times> event list \<Rightarrow>
     (string + (string + modelResponse)) \<times> 'w \<times> event list" where
  "loopBody env ps s =
     (case processCalls env (functionCalls ps) s of
        (Inl e, s1) \<Rightarrow> (Inl e, s1)
      | (Inr functionResponses, s1) \<Rightarrow>
          (case chat_sendMessage env (FunctionResponses functionResponses) s1 of
             (res, s2) \<Rightarrow> (Inr res, s2)))"

text \<open>
  The \<open>while\<close> loop from the point where a \<open>sendMessage\<close> has settled, up to the end of
  the \<open>try\<close> block. It has no bound on its iterations: a run that never ends is \<open>None\<close>.
\<close>

partial_function (option) agenticLoop ::
  "'w env \<Rightarrow> string + modelResponse \<Rightarrow> 'w \<times> event list \<Rightarrow> (outcome \<times> 'w \<times> event list) option" where
  "agenticLoop env res s =
     (case res of
        Inl e \<Rightarrow> Some (FatalError AtSendMessage e, s)
      | Inr result \<Rightarrow>
          (case parts result of
             Inl e \<Rightarrow> Some (FatalError AtParts e, s)
           | Inr ps \<Rightarrow>
               if list_ex isFunctionCall ps
               then (case loopBody env ps s of
                       (Inl e, s') \<Rightarrow> Some (FatalError AtArgs e, s')
                     | (Inr res', s') \<Rightarrow> agenticLoop env res' s')
               else (case responseText result of
                       Inl e \<Rightarrow> Some (FatalError AtText e, s)
                     | Inr t \<Rightarrow> Some (Printed t, s))))"

text \<open>Lines 216 to 221: what is printed at the end, and the release of the input handle.\<close>

definition finish :: "outcome \<times> 'w \<times> event list \<Rightarrow> outcome \<times> 'w \<times> event list" where
  "finish r =
     (case r of
        (Printed t, w, tr) \<Rightarrow>
          (Printed t, w, tr @ [ConsoleLog (''\<newline>[Gemini]:\<newline>'' @ t), RlClose])
      | (FatalError at e, w, tr) \<Rightarrow>
          (FatalError at e, w, tr @ [ConsoleError (''\<newline>[Fatal Error]: '' @ e), RlClose]))"

text \<open>\<open>run\<close> from line 148 on, for a non-empty prompt.\<close>

definition run :: "'w env \<Rightarrow> string \<Rightarrow> 'w \<Rightarrow> (outcome \<times> 'w \<times> event list) option" where
  "run env userPrompt w =
     (case chat_sendMessage env (Prompt userPrompt) (w, []) of
        (res, s) \<Rightarrow> map_option finish (agenticLoop env res s))"

subsection \<open>Observing a trace\<close>

fun isSent :: "event \<Rightarrow> bool" where
  "isSent (Sent msg res) = True"
| "isSent ev = False"

fun isQuestion :: "event \<Rightarrow> bool" where
  "isQuestion (Question q a) = True"
| "isQuestion ev = False"

text \<open>The events of the executor: a subprocess, a directory, a file written or read.\<close>

fun isExecution :: "event \<Rightarrow> bool" where
  "isExecution (ExecSync c) = True"
| "isExecution (MkdirSync d) = True"
| "isExecution (WriteFileSync p c) = True"
| "isExecution (ReadFileSync p) = True"
| "isExecution ev = False"

text \<open>
  A turn that requests actions, each with its arguments (the action requests of the
  specification carry a mapping of arguments), and a turn that is final text.
\<close>

fun hasArgs :: "functionCall \<Rightarrow> bool" where
  "hasArgs (FunctionCall n a) = (a \<noteq> None)"



definition isFinalText :: "modelResponse \<Rightarrow> string \<Rightarrow> bool" where
  "isFinalText result t =
     (case parts result of
        Inl e \<Rightarrow> False
      | Inr ps \<Rightarrow> \<not> list_ex isFunctionCall ps \<and> responseText result = Inr t)"

text \<open>
  The reply on which the loop stops without entering its body, with the outcome it
  stops with: a rejected call or a reply without readable parts or text gives the fatal
  error, a readable reply without a function call gives its text.
\<close>

definition endsRun :: "string + modelResponse \<Rightarrow> outcome \<Rightarrow> bool" where
  "endsRun res out =
     (case res of
        Inl e \<Rightarrow> out = FatalError AtSendMessage e
      | Inr result \<Rightarrow>
          (case parts result of
             Inl e \<Rightarrow> out = FatalError AtParts e
           | Inr ps \<Rightarrow>
               \<not> list_ex isFunctionCall ps \<and>
               (case responseText result of
                  Inl e \<Rightarrow> out = FatalError AtText e
                | Inr t \<Rightarrow> out = Printed t)))"

subsection \<open>A scripted transport\<close>

text \<open>
  The transport stub of the specification's loop-termination test: the world is paired
  with a script, every \<open>sendMessage\<close> returns the next scripted reply whatever it is
  sent, and nothing else touches the script.
\<close>

definition scripted :: "'w env \<Rightarrow> ('w \<times> (string + modelResponse) list) env" where
  "scripted env =
     \<lparr> sendMessage = (\<lambda>msg s. case s of (w, script) \<Rightarrow>
         (case script of
            [] \<Rightarrow> (Inl ''the script has no reply left'', (w, []))
          | r # rs \<Rightarrow> (r, (w, rs)))),
       askPermission = (\<lambda>q s. case s of (w, script) \<Rightarrow>
         (case askPermission env q w of (a, w') \<Rightarrow> (a, (w', script)))),
       JSON_stringify = JSON_stringify env,
       execSync = (\<lambda>c s. case s of (w, script) \<Rightarrow>
         (case execSync env c w of (r, w') \<Rightarrow> (r, (w', script)))),
       path_resolve = path_resolve env,
       path_dirname = path_dirname env,
       mkdirSync = (\<lambda>d s. case s of (w, script) \<Rightarrow>
         (case mkdirSync env d w of (r, w') \<Rightarrow> (r, (w', script)))),
       writeFileSync = (\<lambda>p c s. case s of (w, script) \<Rightarrow>
         (case writeFileSync env p c w of (r, w') \<Rightarrow> (r, (w', script)))),
       readFileSync = (\<lambda>p s. case s of (w, script) \<Rightarrow>
         (case readFileSync env p w of (r, w') \<Rightarrow> (r, (w', script)))) \<rparr>"

subsection \<open>A small concrete environment\<close>

text \<open>
  An environment to run the model on: the world is the list of lines the operator will
  type and a file system as an association list. Its transport is always down; the
  runs below put a script in front of it.
\<close>

type_synonym stubWorld = "string list \<times> (string \<times> string) list"

definition stubStringify :: "args \<Rightarrow> string" where
  "stubStringify a = ''{'' @ concat (map (\<lambda>(k, v). k @ '':'' @ v @ '','') a) @ ''}''"

definition stubEnv :: "stubWorld env" where
  "stubEnv =
     \<lparr> sendMessage = (\<lambda>msg w. (Inl ''fetch failed'', w)),
       askPermission = (\<lambda>q w. case w of (lines, fs) \<Rightarrow>
         (case lines of [] \<Rightarrow> ('''', ([], fs)) | l # ls \<Rightarrow> (l, (ls, fs)))),
       JSON_stringify = stubStringify,
       execSync = (\<lambda>c w. case c of
           None \<Rightarrow> (Inl ''The command argument must be of type string'', w)
         | Some cmd \<Rightarrow>
             if cmd = ''ls'' then (Inr (concat (map (\<lambda>(p, d). p @ ''\<newline>'') (snd w))), w)
             else if cmd = ''yes'' then (Inr (replicate 3000 (CHR ''y'')), w)
             else (Inl (''Command failed: '' @ cmd), w)),
       path_resolve = (\<lambda>p. case p of
           None \<Rightarrow> Inl ''The paths[1] argument must be of type string''
         | Some q \<Rightarrow> Inr (''/work/'' @ q)),
       path_dirname = (\<lambda>p. ''/work''),
       mkdirSync = (\<lambda>d w. (None, w)),
       writeFileSync = (\<lambda>p c w. case c of
           None \<Rightarrow> (Some ''The data argument must be of type string'', w)
         | Some d \<Rightarrow> (None, (fst w, (p, d) # filter (\<lambda>(q, x). q \<noteq> p) (snd w)))),
       readFileSync = (\<lambda>p w. case map_of (snd w) p of
           None \<Rightarrow> (Inl (''ENOENT: no such file or directory, open '' @ p), w)
         | Some d \<Rightarrow> (Inr d, w)) \<rparr>"


subsection \<open>Sample calls\<close>

definition listFiles :: functionCall where
  "listFiles = FunctionCall ''run_shell_command'' (Some [(''command'', ''ls'')])"

definition floodShell :: functionCall where
  "floodShell = FunctionCall ''run_shell_command'' (Some [(''command'', ''yes'')])"


definition longWrite :: functionCall where
  "longWrite = FunctionCall ''write_file''
     (Some [(''path'', ''a.txt''), (''content'', replicate 200 (CHR ''x''))])"

definition deleteFile :: functionCall where
  "deleteFile = FunctionCall ''delete_file'' (Some [(''path'', ''a.txt'')])"

text \<open>A call that arrives without its \<open>args\<close> property.\<close>

definition bareCall :: functionCall where
  "bareCall = FunctionCall ''run_shell_command'' None"

subsection \<open>Sample turns\<close>

definition twoCallParts :: "part list" where
  "twoCallParts =
     [TextPart ''Let me look.'', FunctionCallPart listFiles, FunctionCallPart longWrite]"

definition twoCallTurn :: modelResponse where
  "twoCallTurn = ModelResponse (Inr twoCallParts) (Inr ''Let me look.'')"


definition bareTurn :: modelResponse where
  "bareTurn =
     ModelResponse (Inr [FunctionCallPart listFiles, FunctionCallPart bareCall]) (Inr '''')"

definition finalTurn :: modelResponse where
  "finalTurn =
     ModelResponse (Inr [TextPart ''Here are your files'']) (Inr ''Here are your files'')"

definition twoCallWorld :: "stubWorld \<times> (string + modelResponse) list" where
  "twoCallWorld = (([''y'', ''n''], [(''/work/b.txt'', ''x'')]), [Inr finalTurn])"

declare agenticLoop.simps [code]

section \<open>Auxiliary facts\<close>

subsection \<open>Lower case\<close>

lemma lowerChar_eq_y: "lowerChar c = CHR ''y'' \<longleftrightarrow> c = CHR ''y'' \<or> c = CHR ''Y''"
  by (cases c) (simp add: lowerChar_def char_of_def Let_def bit_Suc_0_iff)

lemma lowerChar_space: "lowerChar (CHR '' '') = CHR '' ''"
  by (simp add: lowerChar_def)

lemma toLowerCase_eq_y: "toLowerCase s = ''y'' \<longleftrightarrow> s = ''y'' \<or> s = ''Y''"
proof (cases s)
  case Nil
  then show ?thesis by (simp add: toLowerCase_def)
next
  case (Cons c cs)
  then show ?thesis by (auto simp: toLowerCase_def lowerChar_eq_y)
qed

lemma space_denied: "CHR '' '' \<in> set answer \<Longrightarrow> decide answer = Deny"
proof -
  assume a: "CHR '' '' \<in> set answer"
  then have "lowerChar (CHR '' '') \<in> set (toLowerCase answer)"
    unfolding toLowerCase_def by (simp only: set_map image_eqI)
  then have m: "CHR '' '' \<in> set (toLowerCase answer)" by (simp add: lowerChar_space)
  have "toLowerCase answer \<noteq> ''y''" using m by auto
  moreover have "toLowerCase answer \<noteq> ''skip''" using m by auto
  ultimately show ?thesis by (simp add: decide_def)
qed

subsection \<open>One call\<close>

lemma safeArgsLog_Some:
  "safeArgsLog env (Some a) =
     Inr (if 150 < length (JSON_stringify env a)
          then take 150 (JSON_stringify env a) @ ''...}''
          else JSON_stringify env a)"
  by (simp add: safeArgsLog_def)

lemma safeArgsLog_Inl: "safeArgsLog env a = Inl e \<longleftrightarrow> a = None \<and> e = cannotRead ''length''"
  by (auto simp: safeArgsLog_def split: option.splits)

lemma hasArgs_iff: "hasArgs c \<longleftrightarrow> args c \<noteq> None"
  by (cases c) simp

lemma executeAction_trace:
  "executeAction env call (w, tr) = (r, w', tr') \<Longrightarrow>
     \<exists>evs. tr' = tr @ evs \<and> list_all isExecution evs"
  by (auto simp: executeAction_def split: if_splits prod.splits sum.splits option.splits)

lemma processCall_thrown:
  "safeArgsLog env (args call) = Inl e \<Longrightarrow> processCall env call (w, tr) = (Inl e, w, tr)"
  by (simp add: processCall_def)

lemma processCall_not_approved:
  assumes "safeArgsLog env (args call) = Inr shown"
    and "askPermission env query w = (answer, w1)" and "decide answer \<noteq> Approve"
  shows "processCall env call (w, tr) =
     (Inr (FunctionResponse (name call)
        (Error (if decide answer = Skip then ''User explicitly skipped this action.''
                else ''User denied permission.''))),
      w1, tr @ [ConsoleLog (requestLine call shown), Question query answer])"
  using assms by (cases "decide answer") (simp_all add: processCall_def pushResponse_def)

lemma processCall_approved:
  assumes "safeArgsLog env (args call) = Inr shown"
    and "askPermission env query w = (answer, w1)" and "decide answer = Approve"
  shows "processCall env call (w, tr) =
     (case executeAction env call
             (w1, tr @ [ConsoleLog (requestLine call shown), Question query answer]) of
        (Inr output, s2) \<Rightarrow> (Inr (pushResponse call output None), s2)
      | (Inl m, s2) \<Rightarrow> (Inr (pushResponse call '''' (Some m)), s2))"
  using assms by (simp add: processCall_def)

lemma processCall_trace:
  assumes "processCall env call (w, tr) = (r, w', tr')"
  shows "(\<exists>e. r = Inl e \<and> safeArgsLog env (args call) = Inl e \<and> w' = w \<and> tr' = tr) \<or>
         (\<exists>fr shown evs. r = Inr fr \<and> responseName fr = name call \<and>
            safeArgsLog env (args call) = Inr shown \<and>
            tr' = tr @ [ConsoleLog (requestLine call shown),
                        Question query (fst (askPermission env query w))] @ evs \<and>
            list_all isExecution evs)"
proof (cases "safeArgsLog env (args call)")
  case (Inl e)
  with assms show ?thesis by (simp add: processCall_thrown)
next
  case (Inr shown)
  obtain answer w1 where a: "askPermission env query w = (answer, w1)"
    by (cases "askPermission env query w")
  let ?tr1 = "tr @ [ConsoleLog (requestLine call shown), Question query answer]"
  show ?thesis
  proof (cases "decide answer = Approve")
    case False
    from processCall_not_approved [OF Inr a False, of tr] assms Inr a show ?thesis by auto
  next
    case True
    obtain x w2 tr2 where x: "executeAction env call (w1, ?tr1) = (x, w2, tr2)"
      by (cases "executeAction env call (w1, ?tr1)")
    from executeAction_trace [OF x] obtain evs where
      e: "tr2 = ?tr1 @ evs" "list_all isExecution evs" by blast
    from processCall_approved [OF Inr a True, of tr] x assms
    have "\<exists>fr. r = Inr fr \<and> responseName fr = name call" and "tr' = tr2"
      by (auto simp: pushResponse_def split: sum.splits option.splits if_splits)
    with e Inr a show ?thesis by auto
  qed
qed

subsection \<open>A batch\<close>

lemma isExecution_not_Sent: "list_all isExecution evs \<Longrightarrow> filter isSent evs = []"
  by (induction evs) (auto elim: isExecution.elims)

lemma isExecution_not_Question: "list_all isExecution evs \<Longrightarrow> filter isQuestion evs = []"
  by (induction evs) (auto elim: isExecution.elims)

lemma isExecution_not_ConsoleLog: "list_all isExecution evs \<Longrightarrow> ConsoleLog l \<notin> set evs"
  by (auto simp: list_all_iff)

lemma processCalls_Cons:
  "processCalls env (c # cs) s =
     (case fst (processCall env c s) of
        Inl e \<Rightarrow> (Inl e, snd (processCall env c s))
      | Inr r \<Rightarrow>
          (case fst (processCalls env cs (snd (processCall env c s))) of
             Inl e \<Rightarrow> (Inl e, snd (processCalls env cs (snd (processCall env c s))))
           | Inr rs \<Rightarrow> (Inr (r # rs), snd (processCalls env cs (snd (processCall env c s))))))"
  by (simp split: prod.splits sum.splits)

lemma processCalls_trace:
  "processCalls env calls (w, tr) = (r, w', tr') \<Longrightarrow>
     \<exists>evs. tr' = tr @ evs \<and> filter isSent evs = [] \<and>
       (\<forall>l. ConsoleLog l \<in> set evs \<longrightarrow>
          (\<exists>c\<in>set calls. \<exists>shown. safeArgsLog env (args c) = Inr shown \<and>
             l = requestLine c shown)) \<and>
       (\<forall>frs. r = Inr frs \<longrightarrow>
          length (filter isQuestion evs) = length calls \<and>
          length frs = length calls \<and> map responseName frs = map name calls) \<and>
       (\<forall>e. r = Inl e \<longrightarrow> e = cannotRead ''length'' \<and> \<not> list_all hasArgs calls)"
proof (induction calls arbitrary: w tr r w' tr')
  case Nil
  then show ?case by auto
next
  case (Cons c cs)
  obtain r1 w1 tr1 where p: "processCall env c (w, tr) = (r1, w1, tr1)"
    by (cases "processCall env c (w, tr)")
  from processCall_trace [OF p] show ?case
  proof
    assume "\<exists>e. r1 = Inl e \<and> safeArgsLog env (args c) = Inl e \<and> w1 = w \<and> tr1 = tr"
    then obtain e where e: "r1 = Inl e" "safeArgsLog env (args c) = Inl e" "tr1 = tr" by blast
    from e(2) have n: "args c = None" "e = cannotRead ''length''"
      by (simp_all add: safeArgsLog_Inl)
    from Cons.prems p e have "r = Inl e" "tr' = tr" by simp_all
    with n show ?thesis by (auto simp: hasArgs_iff)
  next
    assume "\<exists>fr shown evs. r1 = Inr fr \<and> responseName fr = name c \<and>
            safeArgsLog env (args c) = Inr shown \<and>
            tr1 = tr @ [ConsoleLog (requestLine c shown),
                        Question query (fst (askPermission env query w))] @ evs \<and>
            list_all isExecution evs"
    then obtain fr shown ev1 where
      f: "r1 = Inr fr" "responseName fr = name c" "safeArgsLog env (args c) = Inr shown"
      and t1: "tr1 = tr @ [ConsoleLog (requestLine c shown),
                        Question query (fst (askPermission env query w))] @ ev1"
      and x1: "list_all isExecution ev1" by blast
    obtain r2 w2 tr2 where q: "processCalls env cs (w1, tr1) = (r2, w2, tr2)"
      by (cases "processCalls env cs (w1, tr1)")
    from Cons.IH [OF q] obtain ev2 where
      t2: "tr2 = tr1 @ ev2" and s2: "filter isSent ev2 = []"
      and l2: "\<forall>l. ConsoleLog l \<in> set ev2 \<longrightarrow>
          (\<exists>c\<in>set cs. \<exists>shown. safeArgsLog env (args c) = Inr shown \<and>
             l = requestLine c shown)"
      and r2: "\<forall>frs. r2 = Inr frs \<longrightarrow>
          length (filter isQuestion ev2) = length cs \<and>
          length frs = length cs \<and> map responseName frs = map name cs"
      and e2: "\<forall>e. r2 = Inl e \<longrightarrow> e = cannotRead ''length'' \<and> \<not> list_all hasArgs cs"
      by blast
    let ?evs = "[ConsoleLog (requestLine c shown),
                 Question query (fst (askPermission env query w))] @ ev1 @ ev2"
    from Cons.prems p q f(1) have res: "r = (case r2 of Inl e \<Rightarrow> Inl e | Inr rs \<Rightarrow> Inr (fr # rs))"
      and tr': "tr' = tr2"
      by (auto split: sum.splits)
    have 1: "tr' = tr @ ?evs" using tr' t1 t2 by simp
    have 2: "filter isSent ?evs = []"
      using s2 isExecution_not_Sent [OF x1] by simp
    have 3: "\<forall>l. ConsoleLog l \<in> set ?evs \<longrightarrow>
          (\<exists>c'\<in>set (c # cs). \<exists>shown. safeArgsLog env (args c') = Inr shown \<and>
             l = requestLine c' shown)"
      using l2 f(3) isExecution_not_ConsoleLog [OF x1] by auto
    have 4: "\<forall>frs. r = Inr frs \<longrightarrow>
          length (filter isQuestion ?evs) = length (c # cs) \<and>
          length frs = length (c # cs) \<and> map responseName frs = map name (c # cs)"
      using res r2 f(2) isExecution_not_Question [OF x1] by (auto split: sum.splits)
    have 5: "\<forall>e. r = Inl e \<longrightarrow> e = cannotRead ''length'' \<and> \<not> list_all hasArgs (c # cs)"
      using res e2 by (auto split: sum.splits)
    from 1 2 3 4 5 show ?thesis by blast
  qed
qed

lemma processCalls_hasArgs:
  assumes "list_all hasArgs calls"
  shows "\<exists>frs. fst (processCalls env calls (w, tr)) = Inr frs"
proof -
  obtain r w' tr' where p: "processCalls env calls (w, tr) = (r, w', tr')"
    by (cases "processCalls env calls (w, tr)")
  from processCalls_trace [OF p] assms have "\<forall>e. r \<noteq> Inl e" by blast
  then obtain frs where "r = Inr frs" by (cases r) auto
  with p show ?thesis by simp
qed


subsection \<open>The sample environment\<close>

lemma stub_ask: "askPermission stubEnv q (l # ls, fs) = (l, (ls, fs))"
  by (simp add: stubEnv_def)

lemma decide_y: "decide ''y'' = Approve"
  by (simp add: decide_def toLowerCase_def lowerChar_def)

lemma decide_skip: "decide ''skip'' = Skip"
  by (simp add: decide_def toLowerCase_def lowerChar_def)

lemma decide_n: "decide ''n'' = Deny"
  by (simp add: decide_def toLowerCase_def lowerChar_def)

lemma stub_shown_listFiles: "safeArgsLog stubEnv (args listFiles) = Inr ''{command:ls,}''"
  by (simp add: safeArgsLog_def listFiles_def stubEnv_def stubStringify_def)

subsection \<open>The loop\<close>

lemma endsRun_Printed:
  "endsRun res (Printed t) \<longleftrightarrow> (\<exists>result. res = Inr result \<and> isFinalText result t)"
  by (auto simp: endsRun_def isFinalText_def split: sum.splits)

lemma endsRun_not_AtArgs: "\<not> endsRun res (FatalError AtArgs e)"
  by (auto simp: endsRun_def split: sum.splits)

lemma list_ex_isFunctionCall: "list_ex isFunctionCall ps \<longleftrightarrow> functionCalls ps \<noteq> []"
  by (induction ps rule: functionCalls.induct) simp_all

lemma loopBody_unfold:
  assumes "processCalls env (functionCalls ps) (w, tr) = (r, w1, tr1)"
  shows "loopBody env ps (w, tr) =
     (case r of
        Inl e \<Rightarrow> (Inl e, w1, tr1)
      | Inr frs \<Rightarrow>
          (case sendMessage env (FunctionResponses frs) w1 of
             (res, w2) \<Rightarrow> (Inr res, w2, tr1 @ [Sent (FunctionResponses frs) res])))"
  using assms by (simp add: loopBody_def chat_sendMessage_def split: sum.splits prod.splits)

text \<open>What the body of the loop adds to the trace, whether it sends or throws.\<close>

lemma loopBody_trace:
  assumes "loopBody env ps (w, tr) = (r, w', tr')"
  shows "\<exists>evs. filter isSent evs = [] \<and>
           (\<forall>l. ConsoleLog l \<in> set evs \<longrightarrow>
              (\<exists>c\<in>set (functionCalls ps). \<exists>shown.
                 safeArgsLog env (args c) = Inr shown \<and> l = requestLine c shown)) \<and>
           ((\<exists>e. r = Inl e \<and> tr' = tr @ evs) \<or>
            (\<exists>res frs. r = Inr res \<and> tr' = tr @ evs @ [Sent (FunctionResponses frs) res] \<and>
               length (filter isQuestion evs) = length (functionCalls ps)))"
proof -
  obtain r1 w1 tr1 where p: "processCalls env (functionCalls ps) (w, tr) = (r1, w1, tr1)"
    by (cases "processCalls env (functionCalls ps) (w, tr)")
  from processCalls_trace [OF p] obtain evs where
    t: "tr1 = tr @ evs" and s: "filter isSent evs = []"
    and l: "\<forall>l. ConsoleLog l \<in> set evs \<longrightarrow>
              (\<exists>c\<in>set (functionCalls ps). \<exists>shown.
                 safeArgsLog env (args c) = Inr shown \<and> l = requestLine c shown)"
    and q: "\<forall>frs. r1 = Inr frs \<longrightarrow>
          length (filter isQuestion evs) = length (functionCalls ps)"
    by blast
  show ?thesis
  proof (cases r1)
    case (Inl e)
    with loopBody_unfold [OF p] assms t have "r = Inl e" "tr' = tr @ evs" by simp_all
    with s l show ?thesis by blast
  next
    case (Inr frs)
    obtain res w2 where m: "sendMessage env (FunctionResponses frs) w1 = (res, w2)"
      by (cases "sendMessage env (FunctionResponses frs) w1")
    from loopBody_unfold [OF p] assms t Inr m
    have "r = Inr res" "tr' = tr @ evs @ [Sent (FunctionResponses frs) res]" by simp_all
    moreover from q Inr have "length (filter isQuestion evs) = length (functionCalls ps)"
      by simp
    ultimately show ?thesis using s l by blast
  qed
qed

lemma agenticLoop_pending:
  "parts result = Inr ps \<Longrightarrow> list_ex isFunctionCall ps \<Longrightarrow>
     agenticLoop env (Inr result) s =
       (case loopBody env ps s of
          (Inl e, s') \<Rightarrow> Some (FatalError AtArgs e, s')
        | (Inr res', s') \<Rightarrow> agenticLoop env res' s')"
  by (subst agenticLoop.simps) simp

lemma agenticLoop_final:
  "parts result = Inr ps \<Longrightarrow> \<not> list_ex isFunctionCall ps \<Longrightarrow>
     agenticLoop env (Inr result) s =
       Some (case responseText result of Inl e \<Rightarrow> FatalError AtText e | Inr t \<Rightarrow> Printed t, s)"
  by (subst agenticLoop.simps) (simp split: sum.splits)

text \<open>
  How a loop that returns has ended: on the reply it was entered with, or on the reply
  to its last message, or by the exception of a call without arguments, in each case
  with a trace that extends the one it started from.
\<close>

lemma agenticLoop_ends:
  "agenticLoop env res s = Some y \<Longrightarrow>
     (endsRun res (fst y) \<and> snd y = s) \<or>
     (\<exists>w' evs msg res'. snd y = (w', snd s @ evs @ [Sent msg res']) \<and> endsRun res' (fst y)) \<or>
     (\<exists>e w' evs. fst y = FatalError AtArgs e \<and> snd y = (w', snd s @ evs))"
proof (induction env res s y rule: agenticLoop.raw_induct [rotated 1, consumes 1])
  case (1 f env res s y)
  show ?case
  proof (cases res)
    case (Inl e)
    with 1(2) show ?thesis by (auto simp: endsRun_def)
  next
    case (Inr result)
    show ?thesis
    proof (cases "parts result")
      case (Inl e)
      with 1(2) Inr show ?thesis by (auto simp: endsRun_def)
    next
      case ps: (Inr ps)
      show ?thesis
      proof (cases "list_ex isFunctionCall ps")
        case False
        with 1(2) Inr ps show ?thesis
          by (auto simp: endsRun_def split: sum.splits)
      next
        case True
        obtain w tr where s: "s = (w, tr)" by (cases s)
        obtain r w' tr' where b: "loopBody env ps (w, tr) = (r, w', tr')"
          by (cases "loopBody env ps (w, tr)")
        from loopBody_trace [OF b] obtain evs where
          c: "(\<exists>e. r = Inl e \<and> tr' = tr @ evs) \<or>
              (\<exists>res' frs. r = Inr res' \<and> tr' = tr @ evs @ [Sent (FunctionResponses frs) res'])"
          by blast
        from c show ?thesis
        proof
          assume "\<exists>e. r = Inl e \<and> tr' = tr @ evs"
          then obtain e where "r = Inl e" "tr' = tr @ evs" by blast
          with 1(2) Inr ps True s b have "y = (FatalError AtArgs e, w', tr @ evs)" by simp
          then show ?thesis using s by simp
        next
          assume "\<exists>res' frs. r = Inr res' \<and> tr' = tr @ evs @ [Sent (FunctionResponses frs) res']"
          then obtain res' frs where
            r: "r = Inr res'" and t: "tr' = tr @ evs @ [Sent (FunctionResponses frs) res']"
            by blast
          let ?m = "FunctionResponses frs"
          from 1(2) Inr ps True s b r t
          have f: "f env res' (w', tr @ evs @ [Sent ?m res']) = Some y" by simp
          from 1(1) [OF f] show ?thesis
          proof (elim disjE)
            assume "endsRun res' (fst y) \<and> snd y = (w', tr @ evs @ [Sent ?m res'])"
            then show ?thesis using s by auto
          next
            assume "\<exists>w'' evs' msg res''.
              snd y = (w'', snd (w', tr @ evs @ [Sent ?m res']) @ evs' @ [Sent msg res'']) \<and>
              endsRun res'' (fst y)"
            then obtain w'' evs' msg res'' where
              "snd y = (w'', tr @ (evs @ [Sent ?m res'] @ evs') @ [Sent msg res''])"
              "endsRun res'' (fst y)" by auto
            then show ?thesis using s by (metis snd_conv)
          next
            assume "\<exists>e w'' evs'. fst y = FatalError AtArgs e \<and>
              snd y = (w'', snd (w', tr @ evs @ [Sent ?m res']) @ evs')"
            then obtain e w'' evs' where
              "fst y = FatalError AtArgs e"
              "snd y = (w'', tr @ (evs @ [Sent ?m res'] @ evs'))" by auto
            then show ?thesis using s by (metis snd_conv)
          qed
        qed
      qed
    qed
  qed
qed

lemma run_Printed:
  assumes "run env userPrompt w = Some (Printed t, w', tr')"
  shows "\<exists>before msg final.
           isFinalText final t \<and>
           tr' = before @ [Sent msg (Inr final),
                           ConsoleLog (''\<newline>[Gemini]:\<newline>'' @ t), RlClose]"
proof -
  obtain res w1 where s: "sendMessage env (Prompt userPrompt) w = (res, w1)"
    by (cases "sendMessage env (Prompt userPrompt) w")
  from assms s obtain y where
    a: "agenticLoop env res (w1, [Sent (Prompt userPrompt) res]) = Some y"
    and f: "finish y = (Printed t, w', tr')"
    by (auto simp: run_def chat_sendMessage_def)
  obtain o2 w2 tr2 where y: "y = (o2, w2, tr2)" by (cases y)
  from f y have o: "o2 = Printed t"
    and t: "tr' = tr2 @ [ConsoleLog (''\<newline>[Gemini]:\<newline>'' @ t), RlClose]"
    by (auto simp: finish_def split: outcome.splits)
  from agenticLoop_ends [OF a] y o
  have "(endsRun res (Printed t) \<and> tr2 = [Sent (Prompt userPrompt) res]) \<or>
        (\<exists>evs msg res'. tr2 = [Sent (Prompt userPrompt) res] @ evs @ [Sent msg res'] \<and>
           endsRun res' (Printed t))"
    by auto
  then show ?thesis
  proof
    assume "endsRun res (Printed t) \<and> tr2 = [Sent (Prompt userPrompt) res]"
    then obtain final where "res = Inr final" "isFinalText final t"
      "tr' = [] @ [Sent (Prompt userPrompt) (Inr final),
                   ConsoleLog (''\<newline>[Gemini]:\<newline>'' @ t), RlClose]"
      using t by (auto simp: endsRun_Printed)
    then show ?thesis by blast
  next
    assume "\<exists>evs msg res'. tr2 = [Sent (Prompt userPrompt) res] @ evs @ [Sent msg res'] \<and>
           endsRun res' (Printed t)"
    then obtain evs msg final where
      "isFinalText final t"
      "tr' = ([Sent (Prompt userPrompt) res] @ evs) @
             [Sent msg (Inr final), ConsoleLog (''\<newline>[Gemini]:\<newline>'' @ t), RlClose]"
      using t by (auto simp: endsRun_Printed)
    then show ?thesis by blast
  qed
qed

subsection \<open>A call without arguments\<close>

lemma processCall_hasArgs:
  assumes "hasArgs c"
  shows "\<exists>r. fst (processCall env c s) = Inr r"
proof -
  obtain w tr where s: "s = (w, tr)" by (cases s)
  obtain r w' tr' where p: "processCall env c (w, tr) = (r, w', tr')"
    by (cases "processCall env c (w, tr)")
  from assms have "safeArgsLog env (args c) \<noteq> Inl (cannotRead ''length'')"
    by (simp add: hasArgs_iff safeArgsLog_Inl)
  with processCall_trace [OF p] have "\<exists>fr. r = Inr fr"
    by (auto simp: safeArgsLog_Inl)
  with p s show ?thesis by auto
qed

lemma processCalls_bare:
  assumes "list_all hasArgs pre" and "args call = None"
  shows "processCalls env (pre @ call # post) s =
           (Inl (cannotRead ''length''), snd (processCalls env pre s))"
  using assms(1)
proof (induction pre arbitrary: s)
  case Nil
  obtain w tr where s: "s = (w, tr)" by (cases s)
  have "safeArgsLog env (args call) = Inl (cannotRead ''length'')"
    using assms(2) by (simp add: safeArgsLog_Inl)
  from processCall_thrown [OF this, of w tr] s show ?case by simp
next
  case (Cons c cs)
  from Cons.prems have c: "hasArgs c" and cs: "list_all hasArgs cs" by simp_all
  from processCall_hasArgs [OF c, of env s] obtain r where
    r: "fst (processCall env c s) = Inr r" by blast
  from processCalls_hasArgs [OF cs, of env "fst (snd (processCall env c s))"
         "snd (snd (processCall env c s))"]
  obtain rs where rs: "fst (processCalls env cs (snd (processCall env c s))) = Inr rs"
    by auto
  have "processCalls env ((c # cs) @ call # post) s =
          processCalls env (cs @ call # post) (snd (processCall env c s))"
    using r Cons.IH [OF cs, of "snd (processCall env c s)"]
    by (simp add: processCalls_Cons del: processCalls.simps(2))
  also have "\<dots> = (Inl (cannotRead ''length''),
                    snd (processCalls env cs (snd (processCall env c s))))"
    by (rule Cons.IH [OF cs])
  also have "snd (processCalls env cs (snd (processCall env c s))) =
             snd (processCalls env (c # cs) s)"
    using r rs by (simp add: processCalls_Cons del: processCalls.simps(2))
  finally show ?case .
qed

subsection \<open>The recording transport\<close>


subsection \<open>The scripted transport\<close>

lemma scripted_fields:
  "sendMessage (scripted env) msg (w, r # rs) = (r, (w, rs))"
  "askPermission (scripted env) q (w, sc) =
     (case askPermission env q w of (a, w') \<Rightarrow> (a, (w', sc)))"
  "JSON_stringify (scripted env) = JSON_stringify env"
  "execSync (scripted env) c (w, sc) = (case execSync env c w of (r, w') \<Rightarrow> (r, (w', sc)))"
  "path_resolve (scripted env) = path_resolve env"
  "path_dirname (scripted env) = path_dirname env"
  "mkdirSync (scripted env) d (w, sc) = (case mkdirSync env d w of (r, w') \<Rightarrow> (r, (w', sc)))"
  "writeFileSync (scripted env) p c (w, sc) =
     (case writeFileSync env p c w of (r, w') \<Rightarrow> (r, (w', sc)))"
  "readFileSync (scripted env) p (w, sc) =
     (case readFileSync env p w of (r, w') \<Rightarrow> (r, (w', sc)))"
  by (simp_all add: scripted_def)






section \<open>The approval gate\<close>

text \<open>
  C1. For every line the operator types at the approval prompt, the decision is Approve
  when the line lowercases to \<open>y\<close>, Skip when it lowercases to \<open>skip\<close>, and Deny for
  everything else; the empty line is denied. The default is closed: whenever the line
  read for a call does not lowercase to \<open>y\<close>, the call leaves the world as the prompt
  left it and the trace without an event of the executor.
\<close>

theorem approval_gate_decision:
  "(decide answer = Approve \<longleftrightarrow> toLowerCase answer = ''y'') \<and>
   (decide answer = Skip \<longleftrightarrow> toLowerCase answer = ''skip'') \<and>
   (decide answer = Deny \<longleftrightarrow> toLowerCase answer \<noteq> ''y'' \<and> toLowerCase answer \<noteq> ''skip'') \<and>
   decide '''' = Deny \<and>
   (safeArgsLog env (args call) = Inr shown \<longrightarrow>
    askPermission env query w = (answer, w1) \<longrightarrow> toLowerCase answer \<noteq> ''y'' \<longrightarrow>
      snd (processCall env call (w, tr)) =
        (w1, tr @ [ConsoleLog (requestLine call shown), Question query answer]))"
proof -
  have d: "decide '''' = Deny" by (simp add: decide_def toLowerCase_def)
  have c: "snd (processCall env call (w, tr)) =
        (w1, tr @ [ConsoleLog (requestLine call shown), Question query answer])"
    if s: "safeArgsLog env (args call) = Inr shown"
      and a: "askPermission env query w = (answer, w1)" and n: "toLowerCase answer \<noteq> ''y''"
  proof -
    from n have "decide answer \<noteq> Approve" by (simp add: decide_def)
    from processCall_not_approved [OF s a this, of tr] show ?thesis by simp
  qed
  from d c show ?thesis by (simp add: decide_def)
qed

text \<open>
  The gate on an upper-case \<open>Y\<close>, a mixed-case \<open>sKiP\<close>, an \<open>n\<close> and the empty line; a
  shell command answered with the empty line is not run.
\<close>

theorem approval_gate_decision_witness:
  "decide ''Y'' = Approve \<and> decide ''sKiP'' = Skip \<and> decide ''n'' = Deny \<and> decide '''' = Deny \<and>
   snd (processCall stubEnv listFiles (([''''], []), [])) =
     (([], []), [ConsoleLog (requestLine listFiles ''{command:ls,}''), Question query ''''])"
proof -
  have a: "askPermission stubEnv query ([''''], []) = ('''', ([], []))" by (rule stub_ask)
  have n: "toLowerCase '''' \<noteq> ''y''" by (simp add: toLowerCase_def)
  note t = approval_gate_decision
             [where answer = "''''" and env = stubEnv and w = "([''''], [])"
                and ?w1.0 = "([], [])" and call = listFiles and tr = "[]"
                and shown = "''{command:ls,}''"]
  from t a n stub_shown_listFiles
  have 1: "snd (processCall stubEnv listFiles (([''''], []), [])) =
     (([], []), [ConsoleLog (requestLine listFiles ''{command:ls,}''), Question query ''''])"
    by simp
  have 2: "decide ''Y'' = Approve \<and> decide ''sKiP'' = Skip \<and> decide ''n'' = Deny \<and> decide '''' = Deny"
    using approval_gate_decision
            [where answer = "''Y''" and env = stubEnv and w = "([], [])"
               and ?w1.0 = "([], [])" and call = listFiles and tr = "[]" and shown = "[]"]
      approval_gate_decision
            [where answer = "''sKiP''" and env = stubEnv and w = "([], [])"
               and ?w1.0 = "([], [])" and call = listFiles and tr = "[]" and shown = "[]"]
      approval_gate_decision
            [where answer = "''n''" and env = stubEnv and w = "([], [])"
               and ?w1.0 = "([], [])" and call = listFiles and tr = "[]" and shown = "[]"]
    by (simp add: toLowerCase_def lowerChar_def char_of_def bit_Suc_0_iff)
  from 1 2 show ?thesis by simp
qed

text \<open>
  C10. The match is equality of the lowercased line with \<open>y\<close> or \<open>skip\<close>: nothing is
  trimmed and there is no synonym of \<open>y\<close>. The lines \<open>yes\<close>, \<open>y\<close> after a space and
  \<open>Y\<close> before a space are denied, as is every line that holds a space; the only lines
  that approve are \<open>y\<close> and \<open>Y\<close>, and a line skips exactly when its lowercase form is
  \<open>skip\<close>.
\<close>

theorem approval_matching_exact:
  "decide ''yes'' = Deny \<and> decide '' y'' = Deny \<and> decide ''Y '' = Deny \<and>
   (decide answer = Approve \<longleftrightarrow> toLowerCase answer = ''y'') \<and>
   (decide answer = Approve \<longleftrightarrow> answer = ''y'' \<or> answer = ''Y'') \<and>
   (decide answer = Skip \<longleftrightarrow> toLowerCase answer = ''skip'') \<and>
   (CHR '' '' \<in> set answer \<longrightarrow> decide answer = Deny)"
proof -
  have 1: "decide ''yes'' = Deny" by (simp add: decide_def toLowerCase_def)
  have 2: "decide '' y'' = Deny" by (simp add: space_denied)
  have 3: "decide ''Y '' = Deny" by (simp add: space_denied)
  have 4: "decide answer = Approve \<longleftrightarrow> toLowerCase answer = ''y''"
    by (simp add: decide_def)
  have 5: "decide answer = Skip \<longleftrightarrow> toLowerCase answer = ''skip''"
    by (simp add: decide_def)
  show ?thesis using 1 2 3 4 5 toLowerCase_eq_y [of answer] space_denied [of answer]
    by simp
qed

theorem approval_matching_exact_witness:
  "CHR '' '' \<in> set ''Y '' \<and> decide ''Y '' = Deny \<and> decide ''Y'' = Approve \<and> decide ''SKIP'' = Skip"
  using approval_matching_exact [of "''Y ''"] approval_matching_exact [of "''Y''"]
    approval_matching_exact [of "''SKIP''"]
  by (simp add: toLowerCase_def lowerChar_def char_of_def bit_Suc_0_iff)

section \<open>One call of a batch\<close>

text \<open>
  C4. When the decision on a call is Deny or Skip, nothing is executed: the world is the
  one the prompt left, the trace gains the request line and the question and no event of
  the executor, and the response is an error whose message is
  \<open>User explicitly skipped this action.\<close> for Skip and \<open>User denied permission.\<close> for
  Deny (the source ends both with a full stop). The two decisions differ in that message
  only.
\<close>

theorem deny_skip_no_execution:
  assumes "safeArgsLog env (args call) = Inr shown"
    and "askPermission env query w = (answer, w1)" and "decide answer \<noteq> Approve"
  shows "processCall env call (w, tr) =
     (Inr (FunctionResponse (name call)
        (Error (if decide answer = Skip then ''User explicitly skipped this action.''
                else ''User denied permission.''))),
      w1, tr @ [ConsoleLog (requestLine call shown), Question query answer])"
  using assms by (rule processCall_not_approved)

theorem deny_skip_no_execution_witness:
  "processCall stubEnv listFiles (([''skip''], []), []) =
     (Inr (FunctionResponse ''run_shell_command'' (Error ''User explicitly skipped this action.'')),
      ([], []), [ConsoleLog (requestLine listFiles ''{command:ls,}''), Question query ''skip'']) \<and>
   processCall stubEnv listFiles (([''n''], []), []) =
     (Inr (FunctionResponse ''run_shell_command'' (Error ''User denied permission.'')),
      ([], []), [ConsoleLog (requestLine listFiles ''{command:ls,}''), Question query ''n''])"
proof -
  have s: "decide ''skip'' \<noteq> Approve" by (simp add: decide_skip)
  have n: "decide ''n'' \<noteq> Approve" by (simp add: decide_n)
  show ?thesis
    using deny_skip_no_execution [OF stub_shown_listFiles stub_ask s, where tr = "[]"]
      deny_skip_no_execution [OF stub_shown_listFiles stub_ask n, where tr = "[]"]
    by (simp add: decide_skip decide_n listFiles_def)
qed

text \<open>
  C5. An approved \<open>run_shell_command\<close> whose output is longer than 2000 characters
  answers with the first 2000 characters followed by the truncation marker, once: 2000
  characters and the length of the marker. An output of at most 2000 characters is
  returned as it is.
\<close>

theorem shell_output_truncation:
  assumes "args call = Some a"
    and "askPermission env query w = (answer, w1)" and "decide answer = Approve"
    and "name call = ''run_shell_command''"
    and "execSync env (map_of a ''command'') w1 = (Inr output, w2)"
  shows "(2000 < length output \<longrightarrow>
            fst (processCall env call (w, tr)) =
              Inr (FunctionResponse ''run_shell_command''
                     (Content (take 2000 output @ truncationMarker))) \<and>
            length (take 2000 output @ truncationMarker) = 2000 + length truncationMarker) \<and>
         (length output \<le> 2000 \<longrightarrow>
            fst (processCall env call (w, tr)) =
              Inr (FunctionResponse ''run_shell_command'' (Content output))) \<and>
         truncationMarker = ''\<newline>...[OUTPUT TRUNCATED]...''"
proof -
  from assms(1) have s: "safeArgsLog env (args call) =
      Inr (if 150 < length (JSON_stringify env a)
           then take 150 (JSON_stringify env a) @ ''...}'' else JSON_stringify env a)"
    by (simp add: safeArgsLog_Some)
  show ?thesis
    using assms processCall_approved [OF s assms(2) assms(3), of tr]
    by (simp add: executeAction_def truncateOutput_def pushResponse_def truncationMarker_def)
qed

text \<open>A command that prints 3000 characters, and one that prints a short listing.\<close>

theorem shell_output_truncation_witness:
  "fst (processCall stubEnv floodShell (([''y''], []), [])) =
     Inr (FunctionResponse ''run_shell_command''
       (Content (replicate 2000 (CHR ''y'') @ ''\<newline>...[OUTPUT TRUNCATED]...''))) \<and>
   length (replicate 2000 (CHR ''y'') @ ''\<newline>...[OUTPUT TRUNCATED]...'') = 2025 \<and>
   fst (processCall stubEnv listFiles (([''y''], [(''/work/b.txt'', ''x'')]), [])) =
     Inr (FunctionResponse ''run_shell_command'' (Content ''/work/b.txt\<newline>''))"
proof -
  have a1: "args floodShell = Some [(''command'', ''yes'')]" by (simp add: floodShell_def)
  have n1: "name floodShell = ''run_shell_command''" by (simp add: floodShell_def)
  have e1: "execSync stubEnv (map_of [(''command'', ''yes'')] ''command'') ([], []) =
              (Inr (replicate 3000 (CHR ''y'')), ([], []))"
    by (simp add: stubEnv_def)
  have a2: "args listFiles = Some [(''command'', ''ls'')]" by (simp add: listFiles_def)
  have n2: "name listFiles = ''run_shell_command''" by (simp add: listFiles_def)
  have e2: "execSync stubEnv (map_of [(''command'', ''ls'')] ''command'')
              ([], [(''/work/b.txt'', ''x'')]) =
              (Inr ''/work/b.txt\<newline>'', ([], [(''/work/b.txt'', ''x'')]))"
    by (simp add: stubEnv_def)
  have l1: "2000 < length (replicate 3000 (CHR ''y''))" by simp
  have t1: "take 2000 (replicate 3000 (CHR ''y'')) = replicate 2000 (CHR ''y'')" by simp
  have l2: "length ''/work/b.txt\<newline>'' \<le> 2000" by simp
  from shell_output_truncation [OF a1 stub_ask decide_y n1 e1, where tr = "[]"] l1
  have a: "fst (processCall stubEnv floodShell (([''y''], []), [])) =
      Inr (FunctionResponse ''run_shell_command''
        (Content (take 2000 (replicate 3000 (CHR ''y'')) @ truncationMarker)))"
    by blast
  from shell_output_truncation [OF a2 stub_ask decide_y n2 e2, where tr = "[]"] l2
  have b: "fst (processCall stubEnv listFiles (([''y''], [(''/work/b.txt'', ''x'')]), [])) =
      Inr (FunctionResponse ''run_shell_command'' (Content ''/work/b.txt\<newline>''))"
    by blast
  have c: "length (replicate 2000 (CHR ''y'') @ ''\<newline>...[OUTPUT TRUNCATED]...'') = 2025"
    by simp
  show ?thesis using a b c by (simp only: t1 truncationMarker_def simp_thms)
qed

text \<open>
  C7, as the code has it. The dispatch of lines 176 to 190 has three branches and no
  \<open>else\<close>: an approved call whose name is none of \<open>run_shell_command\<close>, \<open>write_file\<close>
  and \<open>read_file\<close> executes nothing, leaves the world as the prompt left it, and is
  answered with a success whose content is the empty string. No error is raised for it.
\<close>

theorem unknown_action_empty_success:
  assumes "safeArgsLog env (args call) = Inr shown"
    and "askPermission env query w = (answer, w1)" and "decide answer = Approve"
    and "name call \<notin> {''run_shell_command'', ''write_file'', ''read_file''}"
  shows "processCall env call (w, tr) =
     (Inr (FunctionResponse (name call) (Content '''')),
      w1, tr @ [ConsoleLog (requestLine call shown), Question query answer])"
  using assms processCall_approved [OF assms(1) assms(2) assms(3), of tr]
  by (simp add: executeAction_def pushResponse_def)

theorem unknown_action_empty_success_witness:
  "processCall stubEnv (FunctionCall ''format_disk'' (Some [])) (([''y''], []), []) =
     (Inr (FunctionResponse ''format_disk'' (Content '''')), ([], []),
      [ConsoleLog (requestLine (FunctionCall ''format_disk'' (Some [])) ''{}''),
       Question query ''y''])"
proof -
  have s: "safeArgsLog stubEnv (args (FunctionCall ''format_disk'' (Some []))) = Inr ''{}''"
    by (simp add: safeArgsLog_def stubEnv_def stubStringify_def)
  have n: "name (FunctionCall ''format_disk'' (Some [])) \<notin>
             {''run_shell_command'', ''write_file'', ''read_file''}"
    by simp
  show ?thesis
    using unknown_action_empty_success [OF s stub_ask decide_y n, where tr = "[]"] by simp
qed

text \<open>
  C7, as the claim states it, fails: the approved call \<open>delete_file\<close> is answered with
  the content \<open>''''\<close>, a success, and not with an error.
\<close>

theorem unknown_action_counterexample:
  "name deleteFile \<notin> {''run_shell_command'', ''write_file'', ''read_file''} \<and>
   decide ''y'' = Approve \<and>
   processCall stubEnv deleteFile (([''y''], [(''/work/a.txt'', ''data'')]), []) =
     (Inr (FunctionResponse ''delete_file'' (Content '''')),
      ([], [(''/work/a.txt'', ''data'')]),
      [ConsoleLog ''\<newline>[AI Action Request]: delete_file -> {path:a.txt,}'',
       Question ''Allow this action? (y/n/skip): '' ''y''])"
  by (simp add: deleteFile_def decide_y processCall_def executeAction_def pushResponse_def
      stubEnv_def requestLine_def safeArgsLog_def stubStringify_def query_def)

text \<open>
  C9. The request line shown to the operator carries the serialized arguments cut to
  their first 150 characters and closed with \<open>...}\<close> when they are longer than 150, and
  whole otherwise. On approval the executor works on the values of the call itself:
  \<open>execSync\<close> is applied to the command of \<open>call.args\<close>, \<open>writeFileSync\<close> to its content
  at the path resolved from its path, \<open>readFileSync\<close> at that path, each in the world
  the prompt left, and the response and the world after the call are what that
  application returns, whatever was displayed.
\<close>

theorem prompt_truncated_executor_untruncated:
  assumes "args call = Some a"
    and "askPermission env query w = (answer, w1)" and "decide answer = Approve"
  shows "\<exists>shown.
          safeArgsLog env (args call) = Inr shown \<and>
          (150 < length (JSON_stringify env a) \<longrightarrow>
             shown = take 150 (JSON_stringify env a) @ ''...}'' \<and> length shown = 154) \<and>
          (length (JSON_stringify env a) \<le> 150 \<longrightarrow> shown = JSON_stringify env a) \<and>
          (name call = ''run_shell_command'' \<longrightarrow>
             processCall env call (w, tr) =
               (case execSync env (map_of a ''command'') w1 of
                  (r, w2) \<Rightarrow>
                    (Inr (case r of
                            Inl m \<Rightarrow> pushResponse call '''' (Some m)
                          | Inr output \<Rightarrow> pushResponse call (truncateOutput output) None),
                     w2,
                     tr @ [ConsoleLog (requestLine call shown), Question query answer,
                           ExecSync (map_of a ''command'')]))) \<and>
          (name call = ''write_file'' \<longrightarrow>
             (\<forall>fullPath w2.
                path_resolve env (map_of a ''path'') = Inr fullPath \<longrightarrow>
                mkdirSync env (path_dirname env fullPath) w1 = (None, w2) \<longrightarrow>
                processCall env call (w, tr) =
                  (case writeFileSync env fullPath (map_of a ''content'') w2 of
                     (r, w3) \<Rightarrow>
                       (Inr (case r of
                               Some m \<Rightarrow> pushResponse call '''' (Some m)
                             | None \<Rightarrow>
                                 pushResponse call
                                   (''Successfully wrote file: '' @ interpolate (map_of a ''path''))
                                   None),
                        w3,
                        tr @ [ConsoleLog (requestLine call shown), Question query answer,
                              MkdirSync (path_dirname env fullPath),
                              WriteFileSync fullPath (map_of a ''content'')])))) \<and>
          (name call = ''read_file'' \<longrightarrow>
             (\<forall>fullPath.
                path_resolve env (map_of a ''path'') = Inr fullPath \<longrightarrow>
                processCall env call (w, tr) =
                  (case readFileSync env fullPath w1 of
                     (r, w2) \<Rightarrow>
                       (Inr (case r of
                               Inl m \<Rightarrow> pushResponse call '''' (Some m)
                             | Inr output \<Rightarrow> pushResponse call output None),
                        w2,
                        tr @ [ConsoleLog (requestLine call shown), Question query answer,
                              ReadFileSync fullPath]))))"
proof -
  let ?shown = "if 150 < length (JSON_stringify env a)
                then take 150 (JSON_stringify env a) @ ''...}'' else JSON_stringify env a"
  from assms(1) have s: "safeArgsLog env (args call) = Inr ?shown"
    by (simp add: safeArgsLog_Some)
  note p = processCall_approved [OF s assms(2) assms(3), of tr]
  have 1: "150 < length (JSON_stringify env a) \<longrightarrow>
             ?shown = take 150 (JSON_stringify env a) @ ''...}'' \<and> length ?shown = 154"
    by simp
  have 2: "length (JSON_stringify env a) \<le> 150 \<longrightarrow> ?shown = JSON_stringify env a"
    by simp
  have 3: "name call = ''run_shell_command'' \<longrightarrow>
             processCall env call (w, tr) =
               (case execSync env (map_of a ''command'') w1 of
                  (r, w2) \<Rightarrow>
                    (Inr (case r of
                            Inl m \<Rightarrow> pushResponse call '''' (Some m)
                          | Inr output \<Rightarrow> pushResponse call (truncateOutput output) None),
                     w2,
                     tr @ [ConsoleLog (requestLine call ?shown), Question query answer,
                           ExecSync (map_of a ''command'')]))"
    using p assms(1)
    by (simp add: executeAction_def split: prod.splits sum.splits)
  have 4: "name call = ''write_file'' \<longrightarrow>
             (\<forall>fullPath w2.
                path_resolve env (map_of a ''path'') = Inr fullPath \<longrightarrow>
                mkdirSync env (path_dirname env fullPath) w1 = (None, w2) \<longrightarrow>
                processCall env call (w, tr) =
                  (case writeFileSync env fullPath (map_of a ''content'') w2 of
                     (r, w3) \<Rightarrow>
                       (Inr (case r of
                               Some m \<Rightarrow> pushResponse call '''' (Some m)
                             | None \<Rightarrow>
                                 pushResponse call
                                   (''Successfully wrote file: '' @ interpolate (map_of a ''path''))
                                   None),
                        w3,
                        tr @ [ConsoleLog (requestLine call ?shown), Question query answer,
                              MkdirSync (path_dirname env fullPath),
                              WriteFileSync fullPath (map_of a ''content'')])))"
    using p assms(1)
    by (simp add: executeAction_def split: prod.splits option.splits)
  have 5: "name call = ''read_file'' \<longrightarrow>
             (\<forall>fullPath.
                path_resolve env (map_of a ''path'') = Inr fullPath \<longrightarrow>
                processCall env call (w, tr) =
                  (case readFileSync env fullPath w1 of
                     (r, w2) \<Rightarrow>
                       (Inr (case r of
                               Inl m \<Rightarrow> pushResponse call '''' (Some m)
                             | Inr output \<Rightarrow> pushResponse call output None),
                        w2,
                        tr @ [ConsoleLog (requestLine call ?shown), Question query answer,
                              ReadFileSync fullPath])))"
    using p assms(1)
    by (simp add: executeAction_def split: prod.splits sum.splits)
  from s 1 2 3 4 5 show ?thesis by blast
qed

text \<open>
  A \<open>write_file\<close> of 200 characters: 150 characters of the arguments are shown, and the
  file system of the world holds the 200 afterwards.
\<close>

theorem prompt_truncated_executor_untruncated_witness:
  "processCall stubEnv longWrite (([''y''], []), []) =
     (Inr (FunctionResponse ''write_file'' (Content ''Successfully wrote file: a.txt'')),
      ([], [(''/work/a.txt'', replicate 200 (CHR ''x''))]),
      [ConsoleLog (''\<newline>[AI Action Request]: write_file -> {path:a.txt,content:'' @
                   replicate 130 (CHR ''x'') @ ''...}''),
       Question query ''y'',
       MkdirSync ''/work'',
       WriteFileSync ''/work/a.txt'' (Some (replicate 200 (CHR ''x'')))])"
proof -
  let ?a = "[(''path'', ''a.txt''), (''content'', replicate 200 (CHR ''x''))]"
  have a: "args longWrite = Some ?a" by (simp add: longWrite_def)
  have j: "JSON_stringify stubEnv ?a =
             ''{path:a.txt,content:'' @ replicate 200 (CHR ''x'') @ '',}''"
    by (simp add: stubEnv_def stubStringify_def)
  have t: "take 150 (JSON_stringify stubEnv ?a) =
             ''{path:a.txt,content:'' @ replicate 130 (CHR ''x'')"
    by (simp add: j)
  have l: "150 < length (JSON_stringify stubEnv ?a)" by (simp add: j)
  have n: "name longWrite = ''write_file''" by (simp add: longWrite_def)
  have r: "path_resolve stubEnv (map_of ?a ''path'') = Inr ''/work/a.txt''"
    by (simp add: stubEnv_def)
  have d: "path_dirname stubEnv ''/work/a.txt'' = ''/work''" by (simp add: stubEnv_def)
  have m: "mkdirSync stubEnv (path_dirname stubEnv ''/work/a.txt'') ([], []) = (None, ([], []))"
    by (simp add: stubEnv_def)
  have c: "map_of ?a ''content'' = Some (replicate 200 (CHR ''x''))" by simp
  have p: "map_of ?a ''path'' = Some ''a.txt''" by simp
  have f: "writeFileSync stubEnv ''/work/a.txt'' (Some (replicate 200 (CHR ''x''))) ([], []) =
             (None, ([], [(''/work/a.txt'', replicate 200 (CHR ''x''))]))"
    by (simp add: stubEnv_def)
  from prompt_truncated_executor_untruncated
         [OF a stub_ask [where ls = "[]" and fs = "[]"] decide_y, where tr = "[]"]
  obtain shown where
    1: "150 < length (JSON_stringify stubEnv ?a) \<longrightarrow>
          shown = take 150 (JSON_stringify stubEnv ?a) @ ''...}'' \<and> length shown = 154"
    and 2: "name longWrite = ''write_file'' \<longrightarrow>
             (\<forall>fullPath w2.
                path_resolve stubEnv (map_of ?a ''path'') = Inr fullPath \<longrightarrow>
                mkdirSync stubEnv (path_dirname stubEnv fullPath) ([], []) = (None, w2) \<longrightarrow>
                processCall stubEnv longWrite (([''y''], []), []) =
                  (case writeFileSync stubEnv fullPath (map_of ?a ''content'') w2 of
                     (r, w3) \<Rightarrow>
                       (Inr (case r of
                               Some m \<Rightarrow> pushResponse longWrite '''' (Some m)
                             | None \<Rightarrow>
                                 pushResponse longWrite
                                   (''Successfully wrote file: '' @ interpolate (map_of ?a ''path''))
                                   None),
                        w3,
                        [] @ [ConsoleLog (requestLine longWrite shown), Question query ''y'',
                              MkdirSync (path_dirname stubEnv fullPath),
                              WriteFileSync fullPath (map_of ?a ''content'')])))"
    by (elim exE conjE) (rule that; assumption)
  from 1 l t have s: "shown = ''{path:a.txt,content:'' @ replicate 130 (CHR ''x'') @ ''...}''"
    by simp
  from 2 n r m have "processCall stubEnv longWrite (([''y''], []), []) =
                  (case writeFileSync stubEnv ''/work/a.txt'' (map_of ?a ''content'') ([], []) of
                     (r, w3) \<Rightarrow>
                       (Inr (case r of
                               Some m \<Rightarrow> pushResponse longWrite '''' (Some m)
                             | None \<Rightarrow>
                                 pushResponse longWrite
                                   (''Successfully wrote file: '' @ interpolate (map_of ?a ''path''))
                                   None),
                        w3,
                        [] @ [ConsoleLog (requestLine longWrite shown), Question query ''y'',
                              MkdirSync (path_dirname stubEnv ''/work/a.txt''),
                              WriteFileSync ''/work/a.txt'' (map_of ?a ''content'')]))"
    by blast
  then show ?thesis
    by (simp only: c p f d s) (simp add: pushResponse_def interpolate_def requestLine_def n)
qed

section \<open>A batch of calls\<close>



section \<open>The run\<close>

text \<open>
  C3, where the code departs from it. The serialized arguments of a call are measured on
  line 163, before the inner \<open>try\<close> of line 175. When a call of a turn arrives without
  its \<open>args\<close>, the calls before it are asked about and processed, then line 163 throws,
  the results of the turn are never sent, and \<open>run\<close> ends with a fatal error although
  its transport call returned a readable reply and no later one was made.
\<close>

theorem missing_args_end_run:
  assumes "sendMessage env (Prompt userPrompt) w = (Inr result, w1)"
    and "parts result = Inr ps"
    and "functionCalls ps = pre @ call # post"
    and "list_all hasArgs pre" and "args call = None"
  shows "\<exists>frs w2 evs.
     processCalls env pre (w1, [Sent (Prompt userPrompt) (Inr result)]) =
       (Inr frs, w2, [Sent (Prompt userPrompt) (Inr result)] @ evs) \<and>
     length frs = length pre \<and>
     length (filter isQuestion evs) = length pre \<and>
     filter isSent evs = [] \<and>
     run env userPrompt w =
       Some (FatalError AtArgs (cannotRead ''length''), w2,
             [Sent (Prompt userPrompt) (Inr result)] @ evs @
             [ConsoleError (''\<newline>[Fatal Error]: '' @ cannotRead ''length''), RlClose])"
proof -
  let ?tr = "[Sent (Prompt userPrompt) (Inr result)]"
  from processCalls_hasArgs [OF assms(4), of env w1 ?tr] obtain frs w2 tr2 where
    p: "processCalls env pre (w1, ?tr) = (Inr frs, w2, tr2)"
    by (metis fst_conv surj_pair)
  from processCalls_trace [OF p] obtain evs where
    t: "tr2 = ?tr @ evs" and s: "filter isSent evs = []"
    and q: "length (filter isQuestion evs) = length pre"
    and n: "length frs = length pre"
    by blast
  have c: "list_ex isFunctionCall ps" using assms(3) by (simp add: list_ex_isFunctionCall)
  have "processCalls env (functionCalls ps) (w1, ?tr) = (Inl (cannotRead ''length''), w2, tr2)"
    using processCalls_bare [OF assms(4) assms(5), of env post "(w1, ?tr)"] assms(3) p
    by simp
  from loopBody_unfold [OF this]
  have "loopBody env ps (w1, ?tr) = (Inl (cannotRead ''length''), w2, tr2)" by simp
  with agenticLoop_pending [OF assms(2) c, of env "(w1, ?tr)"]
  have "agenticLoop env (Inr result) (w1, ?tr) =
          Some (FatalError AtArgs (cannotRead ''length''), w2, tr2)"
    by simp
  with assms(1) t have "run env userPrompt w =
       Some (FatalError AtArgs (cannotRead ''length''), w2,
             ?tr @ evs @ [ConsoleError (''\<newline>[Fatal Error]: '' @ cannotRead ''length''), RlClose])"
    by (simp add: run_def chat_sendMessage_def finish_def)
  with p t n q s show ?thesis by blast
qed

text \<open>
  A turn with a listing and a call without arguments: the listing is approved and run,
  then the run ends; the transport was called once, for the prompt.
\<close>

theorem missing_args_end_run_witness:
  "run (scripted stubEnv) ''go''
     (([''y''], [(''/work/b.txt'', ''x'')]), [Inr bareTurn, Inr finalTurn]) =
   Some (FatalError AtArgs (cannotRead ''length''),
         (([], [(''/work/b.txt'', ''x'')]), [Inr finalTurn]),
         [Sent (Prompt ''go'') (Inr bareTurn),
          ConsoleLog (requestLine listFiles ''{command:ls,}''),
          Question query ''y'',
          ExecSync (Some ''ls''),
          ConsoleError (''\<newline>[Fatal Error]: '' @ cannotRead ''length''),
          RlClose])"
proof -
  let ?w = "(([''y''], [(''/work/b.txt'', ''x'')]), [Inr bareTurn, Inr finalTurn])
              :: stubWorld \<times> (string + modelResponse) list"
  let ?w1 = "(([''y''], [(''/work/b.txt'', ''x'')]), [Inr finalTurn])
              :: stubWorld \<times> (string + modelResponse) list"
  let ?tr = "[Sent (Prompt ''go'') (Inr bareTurn)]"
  have a: "sendMessage (scripted stubEnv) (Prompt ''go'') ?w = (Inr bareTurn, ?w1)"
    by (simp add: scripted_fields)
  have b: "parts bareTurn = Inr [FunctionCallPart listFiles, FunctionCallPart bareCall]"
    by (simp add: bareTurn_def)
  have c: "functionCalls [FunctionCallPart listFiles, FunctionCallPart bareCall] =
             [listFiles] @ bareCall # []" by simp
  have d: "list_all hasArgs [listFiles]" by (simp add: listFiles_def)
  have e: "args bareCall = None" by (simp add: bareCall_def)
  have f: "processCalls (scripted stubEnv) [listFiles] (?w1, ?tr) =
             (Inr [FunctionResponse ''run_shell_command'' (Content ''/work/b.txt\<newline>'')],
              (([], [(''/work/b.txt'', ''x'')]), [Inr finalTurn]),
              ?tr @ [ConsoleLog (requestLine listFiles ''{command:ls,}''),
                     Question query ''y'', ExecSync (Some ''ls'')])"
    by (simp add: processCall_def safeArgsLog_def scripted_fields stubEnv_def decide_y
        executeAction_def pushResponse_def listFiles_def truncateOutput_def stubStringify_def)
  from missing_args_end_run [OF a b c d e]
  obtain frs w2 evs where
    p: "processCalls (scripted stubEnv) [listFiles] (?w1, ?tr) = (Inr frs, w2, ?tr @ evs)"
    and r: "run (scripted stubEnv) ''go'' ?w =
       Some (FatalError AtArgs (cannotRead ''length''), w2,
             ?tr @ evs @ [ConsoleError (''\<newline>[Fatal Error]: '' @ cannotRead ''length''), RlClose])"
    by (elim exE conjE) (rule that; assumption)
  from p f have "w2 = (([], [(''/work/b.txt'', ''x'')]), [Inr finalTurn])"
    and "evs = [ConsoleLog (requestLine listFiles ''{command:ls,}''),
                Question query ''y'', ExecSync (Some ''ls'')]"
    by simp_all
  with r show ?thesis by simp
qed



text \<open>
  C8. A turn is final exactly when none of its parts is a function call, whatever text
  it carries: the loop stops at such a turn without a further step, and at no other. At
  a turn with a function call the loop enters its body, which logs nothing but the
  request lines of that turn's calls, and goes on from what the body returns. When
  \<open>run\<close> prints a text, that text is the text of the last reply of the transport, and
  that reply has no function call.
\<close>

theorem pending_iff_function_call:
  assumes "parts result = Inr ps"
  shows "(agenticLoop env (Inr result) (w, tr) =
            Some (case responseText result of
                    Inl e \<Rightarrow> FatalError AtText e | Inr t \<Rightarrow> Printed t, w, tr)
          \<longleftrightarrow> \<not> list_ex isFunctionCall ps) \<and>
         (list_ex isFunctionCall ps \<longrightarrow>
            agenticLoop env (Inr result) (w, tr) =
              (case loopBody env ps (w, tr) of
                 (Inl e, s') \<Rightarrow> Some (FatalError AtArgs e, s')
               | (Inr res, s') \<Rightarrow> agenticLoop env res s') \<and>
            (\<exists>evs. (snd (snd (loopBody env ps (w, tr))) = tr @ evs \<or>
                    (\<exists>msg res. snd (snd (loopBody env ps (w, tr))) = tr @ evs @ [Sent msg res])) \<and>
                   (\<forall>l. ConsoleLog l \<in> set evs \<longrightarrow>
                      (\<exists>c\<in>set (functionCalls ps). \<exists>shown.
                         safeArgsLog env (args c) = Inr shown \<and> l = requestLine c shown)))) \<and>
         (\<forall>t wEnd trEnd. run env userPrompt w0 = Some (Printed t, wEnd, trEnd) \<longrightarrow>
            (\<exists>before msg final.
               isFinalText final t \<and>
               trEnd = before @ [Sent msg (Inr final),
                               ConsoleLog (''\<newline>[Gemini]:\<newline>'' @ t), RlClose]))"
proof -
  let ?stop = "Some (case responseText result of
                       Inl e \<Rightarrow> FatalError AtText e | Inr t \<Rightarrow> Printed t, w, tr)"
  obtain r w' tr' where b: "loopBody env ps (w, tr) = (r, w', tr')"
    by (cases "loopBody env ps (w, tr)")
  from loopBody_trace [OF b] obtain evs where
    g: "\<forall>l. ConsoleLog l \<in> set evs \<longrightarrow>
              (\<exists>c\<in>set (functionCalls ps). \<exists>shown.
                 safeArgsLog env (args c) = Inr shown \<and> l = requestLine c shown)"
    and c: "(\<exists>e. r = Inl e \<and> tr' = tr @ evs) \<or>
            (\<exists>res frs. r = Inr res \<and> tr' = tr @ evs @ [Sent (FunctionResponses frs) res])"
    by blast
  have pend: "agenticLoop env (Inr result) (w, tr) =
              (case loopBody env ps (w, tr) of
                 (Inl e, s') \<Rightarrow> Some (FatalError AtArgs e, s')
               | (Inr res, s') \<Rightarrow> agenticLoop env res s')"
    if "list_ex isFunctionCall ps"
    by (rule agenticLoop_pending [OF assms that])
  have logs: "\<exists>evs. (snd (snd (loopBody env ps (w, tr))) = tr @ evs \<or>
                    (\<exists>msg res. snd (snd (loopBody env ps (w, tr))) = tr @ evs @ [Sent msg res])) \<and>
                   (\<forall>l. ConsoleLog l \<in> set evs \<longrightarrow>
                      (\<exists>c\<in>set (functionCalls ps). \<exists>shown.
                         safeArgsLog env (args c) = Inr shown \<and> l = requestLine c shown))"
    using b c g by auto
  have 1: "agenticLoop env (Inr result) (w, tr) = ?stop" if "\<not> list_ex isFunctionCall ps"
    using agenticLoop_final [OF assms that, of env "(w, tr)"] by simp
  have 2: "agenticLoop env (Inr result) (w, tr) \<noteq> ?stop" if f: "list_ex isFunctionCall ps"
  proof
    assume stop: "agenticLoop env (Inr result) (w, tr) = ?stop"
    from c show False
    proof
      assume "\<exists>e. r = Inl e \<and> tr' = tr @ evs"
      then obtain e where "r = Inl e" by blast
      with pend [OF f] b stop show False by (auto split: sum.splits)
    next
      assume "\<exists>res frs. r = Inr res \<and> tr' = tr @ evs @ [Sent (FunctionResponses frs) res]"
      then obtain res frs where
        r: "r = Inr res" and t: "tr' = tr @ evs @ [Sent (FunctionResponses frs) res]" by blast
      with pend [OF f] b stop
      have "agenticLoop env res (w', tr @ evs @ [Sent (FunctionResponses frs) res]) = ?stop"
        by simp
      from agenticLoop_ends [OF this] show False by (auto split: sum.splits)
    qed
  qed
  have 3: "\<exists>before msg final.
               isFinalText final t \<and>
               trEnd = before @ [Sent msg (Inr final),
                               ConsoleLog (''\<newline>[Gemini]:\<newline>'' @ t), RlClose]"
    if r: "run env userPrompt w0 = Some (Printed t, wEnd, trEnd)" for t wEnd trEnd
    by (rule run_Printed [OF r])
  from 1 2 pend logs 3 show ?thesis by blast
qed

text \<open>
  A turn with both text and function calls is not final, and its text is not printed;
  a turn with text only is final.
\<close>

theorem pending_iff_function_call_witness:
  "list_ex isFunctionCall twoCallParts \<and>
   agenticLoop (scripted stubEnv) (Inr twoCallTurn) (twoCallWorld, []) \<noteq>
     Some (Printed ''Let me look.'', twoCallWorld, []) \<and>
   \<not> list_ex isFunctionCall [TextPart ''Here are your files''] \<and>
   agenticLoop (scripted stubEnv) (Inr finalTurn) (twoCallWorld, []) =
     Some (Printed ''Here are your files'', twoCallWorld, [])"
proof -
  have a: "parts twoCallTurn = Inr twoCallParts" by (simp add: twoCallTurn_def)
  have b: "list_ex isFunctionCall twoCallParts" by (simp add: twoCallParts_def)
  have c: "parts finalTurn = Inr [TextPart ''Here are your files'']" by (simp add: finalTurn_def)
  have d: "\<not> list_ex isFunctionCall [TextPart ''Here are your files'']" by simp
  from pending_iff_function_call
         [OF a, where env = "scripted stubEnv" and w = twoCallWorld and tr = "[]"
            and userPrompt = "[]" and ?w0.0 = twoCallWorld, THEN conjunct1] b
  have 1: "agenticLoop (scripted stubEnv) (Inr twoCallTurn) (twoCallWorld, []) \<noteq>
     Some (Printed ''Let me look.'', twoCallWorld, [])"
    by (simp add: twoCallTurn_def)
  from pending_iff_function_call
         [OF c, where env = "scripted stubEnv" and w = twoCallWorld and tr = "[]"
            and userPrompt = "[]" and ?w0.0 = twoCallWorld, THEN conjunct1] d
  have 2: "agenticLoop (scripted stubEnv) (Inr finalTurn) (twoCallWorld, []) =
     Some (Printed ''Here are your files'', twoCallWorld, [])"
    by (simp add: finalTurn_def)
  from b d 1 2 show ?thesis by blast
qed

end
